theory Spec2Isabelle
  imports Main
begin

section \<open>JavaScript values\<close>

text \<open>
  The content records, the page descriptors and the snapshot are plain JavaScript data.
  An object is an association list of its own properties (at most one binding for a key,
  in insertion order); numbers are the integers that a JavaScript number holds exactly
  (below \<open>2^53\<close> in size), which print as their decimal digits.
\<close>

datatype jsval =
    JUndefined
  | JNull
  | JBool bool
  | JNum int
  | JStr string
  | JArr "jsval list"
  | JObj "(string \<times> jsval) list"

type_synonym jsobj = "(string \<times> jsval) list"

text \<open>The truthy values: those a condition \<open>if (v)\<close> accepts.\<close>

fun js_truthy :: "jsval \<Rightarrow> bool" where
  "js_truthy JUndefined = False"
| "js_truthy JNull = False"
| "js_truthy (JBool b) = b"
| "js_truthy (JNum n) = (n \<noteq> 0)"
| "js_truthy (JStr s) = (s \<noteq> [])"
| "js_truthy (JArr xs) = True"
| "js_truthy (JObj fs) = True"

text \<open>\<open>o[k]\<close> on an object: the property's value, or \<open>undefined\<close>.\<close>

definition obj_get :: "jsobj \<Rightarrow> string \<Rightarrow> jsval" where
  "obj_get fs k = (case map_of fs k of None \<Rightarrow> JUndefined | Some v \<Rightarrow> v)"

text \<open>
  \<open>o[k] = v\<close>: an existing property keeps its place and takes the new value, a new one
  goes to the end.
\<close>

fun obj_set :: "jsobj \<Rightarrow> string \<Rightarrow> jsval \<Rightarrow> jsobj" where
  "obj_set [] k v = [(k, v)]"
| "obj_set ((k', v') # fs) k v =
     (if k' = k then (k, v) # fs else (k', v') # obj_set fs k v)"

text \<open>
  \<open>_.assign(target, source)\<close> on two objects, and the object spread \<open>{...target, ...source}\<close>:
  the source's properties are written onto the target one by one, in the source's order.
\<close>

definition obj_assign :: "jsobj \<Rightarrow> jsobj \<Rightarrow> jsobj" where
  "obj_assign target source = foldl (\<lambda>acc (k, v). obj_set acc k v) target source"

text \<open>\<open>v.k\<close> on any value met here: a property of an object, \<open>undefined\<close> otherwise.\<close>

fun prop_get :: "jsval \<Rightarrow> string \<Rightarrow> jsval" where
  "prop_get (JObj fs) k = obj_get fs k"
| "prop_get _ k = JUndefined"

subsection \<open>Conversion to a string\<close>

definition digit_char :: "nat \<Rightarrow> char" where
  "digit_char d = ''0123456789'' ! (d mod 10)"

fun nat_digits :: "nat \<Rightarrow> string" where
  "nat_digits n = (if n < 10 then [digit_char n] else nat_digits (n div 10) @ [digit_char n])"

declare nat_digits.simps [simp del]

definition int_toString :: "int \<Rightarrow> string" where
  "int_toString i = (if i < 0 then CHR ''-'' # nat_digits (nat (- i)) else nat_digits (nat i))"

fun join_commas :: "string list \<Rightarrow> string" where
  "join_commas [] = []"
| "join_commas [s] = s"
| "join_commas (s # t # ss) = s @ CHR '','' # join_commas (t # ss)"

text \<open>
  lodash's \<open>baseToString\<close>: a string is itself, an array is its elements' strings joined
  by commas, anything else is \<open>value + ''\<close>.
\<close>

fun baseToString :: "jsval \<Rightarrow> string" where
  "baseToString (JStr s) = s"
| "baseToString (JArr xs) = join_commas (map baseToString xs)"
| "baseToString JUndefined = ''undefined''"
| "baseToString JNull = ''null''"
| "baseToString (JBool b) = (if b then ''true'' else ''false'')"
| "baseToString (JNum n) = int_toString n"
| "baseToString (JObj fs) = ''[object Object]''"

text \<open>lodash's \<open>toString\<close>: \<open>value == null ? '' : baseToString(value)\<close>.\<close>

definition toString :: "jsval \<Rightarrow> string" where
  "toString v = (if v = JUndefined \<or> v = JNull then [] else baseToString v)"

text \<open>
  \<open>_.trim(value, '/')\<close>: the value as a string, without the slashes at its start and at
  its end.
\<close>

definition trim_chars :: "char \<Rightarrow> string \<Rightarrow> string" where
  "trim_chars c s = rev (dropWhile (\<lambda>x. x = c) (rev (dropWhile (\<lambda>x. x = c) s)))"

definition lodash_trim :: "jsval \<Rightarrow> string" where
  "lodash_trim v = trim_chars CHR ''/'' (toString v)"

definition startsWith :: "string \<Rightarrow> char \<Rightarrow> bool" where
  "startsWith s c = (case s of [] \<Rightarrow> False | x # _ \<Rightarrow> x = c)"

section \<open>Path interpolation\<close>

datatype error =
    MissingField string jsval
  | TypeError
  | CacheNotFound string nat
  | NoSuchFile string
  | InvalidJson string

text \<open>
  The matches of \<open>/{([\s\S]+?)}/g\<close> in a template, left to right: at an opening brace
  the match takes one character of any kind, then as few more as possible up to the next
  closing brace. A template is cut into the characters outside the matches and the
  captured groups of the matches.
\<close>

datatype token = Lit char | Hole string

function tokenize :: "string \<Rightarrow> token list" where
  "tokenize [] = []"
| "tokenize (c # cs) =
     (if c = CHR ''{'' then
        (case cs of
           [] \<Rightarrow> [Lit c]
         | d # ds \<Rightarrow>
             (case dropWhile (\<lambda>x. x \<noteq> CHR ''}'') ds of
                [] \<Rightarrow> Lit c # tokenize cs
              | _ # rest \<Rightarrow> Hole (d # takeWhile (\<lambda>x. x \<noteq> CHR ''}'') ds) # tokenize rest))
      else Lit c # tokenize cs)"
  by pat_completeness auto
termination
proof (relation "measure length")
  fix c :: char and cs :: string and d ds x rest
  assume "cs = d # ds" and "dropWhile (\<lambda>x. x \<noteq> CHR ''}'') ds = x # rest"
  then have "length rest < length ds"
    using length_dropWhile_le [of "\<lambda>x. x \<noteq> CHR ''}''" ds] by simp
  then show "(rest, c # cs) \<in> measure length"
    using \<open>cs = d # ds\<close> by simp
qed auto

text \<open>
  The replacer of \<open>interpolatePagePath\<close>: the field's value, trimmed, or the error it
  throws when the value is falsy. \<open>get\<close> is lodash's \<open>_.get\<close>.
\<close>

definition replacer :: "(jsval \<Rightarrow> string \<Rightarrow> jsval) \<Rightarrow> jsval \<Rightarrow> string \<Rightarrow> error + string" where
  "replacer get page p1 =
     (let fieldValue = get page p1
      in if \<not> js_truthy fieldValue then Inl (MissingField p1 page)
         else Inr (lodash_trim fieldValue))"

text \<open>
  \<open>String.prototype.replace\<close> with a replacer: the replacer runs on the matches from left
  to right, and the first error it throws ends the call.
\<close>

fun replace_tokens :: "(string \<Rightarrow> error + string) \<Rightarrow> token list \<Rightarrow> error + string" where
  "replace_tokens f [] = Inr []"
| "replace_tokens f (Lit c # ts) =
     (case replace_tokens f ts of Inl e \<Rightarrow> Inl e | Inr r \<Rightarrow> Inr (c # r))"
| "replace_tokens f (Hole p # ts) =
     (case f p of
        Inl e \<Rightarrow> Inl e
      | Inr s \<Rightarrow> (case replace_tokens f ts of Inl e \<Rightarrow> Inl e | Inr r \<Rightarrow> Inr (s @ r)))"

definition interpolatePagePath ::
  "(jsval \<Rightarrow> string \<Rightarrow> jsval) \<Rightarrow> string \<Rightarrow> jsval \<Rightarrow> error + string" where
  "interpolatePagePath get pathTemplate page =
     (case replace_tokens (replacer get page) (tokenize pathTemplate) of
        Inl e \<Rightarrow> Inl e
      | Inr urlPath \<Rightarrow> Inr (if \<not> startsWith urlPath CHR ''/'' then CHR ''/'' # urlPath else urlPath))"

subsection \<open>Reading a template\<close>






subsection \<open>Dotted field paths\<close>

fun split_on :: "char \<Rightarrow> string \<Rightarrow> string list" where
  "split_on c [] = [[]]"
| "split_on c (x # xs) =
     (if x = c then [] # split_on c xs
      else (case split_on c xs of [] \<Rightarrow> [[x]] | w # ws \<Rightarrow> (x # w) # ws))"

fun get_in :: "jsval \<Rightarrow> string list \<Rightarrow> jsval" where
  "get_in v [] = v"
| "get_in (JObj fs) (k # ks) =
     (case map_of fs k of None \<Rightarrow> JUndefined | Some v \<Rightarrow> get_in v ks)"
| "get_in _ (k # ks) = JUndefined"

text \<open>
  Modelled from the spec: lodash's \<open>_.get\<close> is a dependency of the package and is not among
  its sources. The spec has it resolve a dotted field path against the object, a missing
  field giving \<open>undefined\<close>. The functions of this theory take the resolver as their
  argument \<open>get\<close>, and the theorems about them hold for every resolver; \<open>dotted_get\<close> is
  the one the examples run with.
\<close>

definition dotted_get :: "jsval \<Rightarrow> string \<Rightarrow> jsval" where
  "dotted_get object path = get_in object (split_on CHR ''.'' path)"

section \<open>The reducers\<close>

text \<open>
  A predicate is a function of a record. \<open>_.find\<close> gives the first element a predicate
  accepts, or \<open>undefined\<close>; \<open>_.filter\<close> is \<open>filter\<close>.
\<close>

definition lodash_find :: "(jsval \<Rightarrow> bool) \<Rightarrow> jsval list \<Rightarrow> jsval" where
  "lodash_find pred xs = (case List.find pred xs of None \<Rightarrow> JUndefined | Some x \<Rightarrow> x)"

text \<open>
  A prop definition \<open>{ single, predicate }\<close>. \<open>prop_single\<close> is what
  \<open>_.get(propDef, 'single')\<close> finds, \<open>undefined\<close> when the definition has no such field.
\<close>

record propDef =
  prop_single :: jsval
  prop_predicate :: "jsval \<Rightarrow> bool"

text \<open>
  The \<open>propsMap\<close> argument: a function of the records, or an object of prop definitions
  by name. No \<open>propsMap\<close> at all reduces to the empty object, as \<open>PropsMap []\<close> does.
\<close>

datatype propsMap =
    PropsFn "jsval list \<Rightarrow> jsobj"
  | PropsMap "(string \<times> propDef) list"

fun reducePropsMap :: "propsMap \<Rightarrow> jsval list \<Rightarrow> jsobj" where
  "reducePropsMap (PropsFn propsFn) data = propsFn data"
| "reducePropsMap (PropsMap propsMap) data =
     foldl (\<lambda>accum (propName, propDef).
              if js_truthy (prop_single propDef)
              then obj_assign (obj_assign [] accum)
                     [(propName, lodash_find (prop_predicate propDef) data)]
              else obj_assign (obj_assign [] accum)
                     [(propName, JArr (filter (prop_predicate propDef) data))])
       [] propsMap"

text \<open>
  A page type definition \<open>{ predicate, path, props }\<close>; \<open>def_path\<close> is \<open>undefined\<close>
  when no template is given.
\<close>

record pageTypeDef =
  def_predicate :: "jsval \<Rightarrow> bool"
  def_path :: jsval
  def_props :: propsMap

text \<open>
  The \<open>pages\<close> argument: a function of the records that gives the page items, or a
  list of page type definitions.
\<close>

datatype pagesSpec =
    PagesFn "jsval list \<Rightarrow> jsval list"
  | PagesDefs "pageTypeDef list"

text \<open>
  The call \<open>interpolatePagePath(pathTemplate, page)\<close> on a template that may be any
  value: \<open>pathTemplate.replace\<close> is a \<open>TypeError\<close> unless the template is a string.
\<close>

fun callInterpolate ::
  "(jsval \<Rightarrow> string \<Rightarrow> jsval) \<Rightarrow> jsval \<Rightarrow> jsval \<Rightarrow> error + string" where
  "callInterpolate get (JStr pathTemplate) page = interpolatePagePath get pathTemplate page"
| "callInterpolate get _ page = Inl TypeError"

text \<open>
  \<open>_.assign(object, source)\<close> on any target. lodash 4 starts with
  \<open>object = Object(object)\<close>, so that \<open>undefined\<close> and \<open>null\<close> become a new empty object
  which takes the source's properties. A primitive or an array comes back as itself (its
  wrapper serialises as the value).
\<close>

fun lodash_assign :: "jsval \<Rightarrow> jsobj \<Rightarrow> jsval" where
  "lodash_assign (JObj fs) source = JObj (obj_assign fs source)"
| "lodash_assign JUndefined source = JObj (obj_assign [] source)"
| "lodash_assign JNull source = JObj (obj_assign [] source)"
| "lodash_assign v source = v"

text \<open>
  The body of the reduction in function mode: the \<open>try\<close> around the interpolation
  catches whatever it throws, and the item is left out.
\<close>

definition addItem ::
  "(jsval \<Rightarrow> string \<Rightarrow> jsval) \<Rightarrow> jsval list \<Rightarrow> jsval \<Rightarrow> jsval list" where
  "addItem get accum item =
     (case callInterpolate get (prop_get item ''path'') (prop_get item ''page'') of
        Inl e \<Rightarrow> accum
      | Inr urlPath \<Rightarrow> accum @ [lodash_assign item [(''path'', JStr urlPath)]])"

text \<open>
  The object literal \<open>{ path: urlPath, page: page, ...props }\<close>: \<open>path\<close> and \<open>page\<close>
  first, then the spread writes the props over them.
\<close>

definition pageDescriptor :: "string \<Rightarrow> jsval \<Rightarrow> jsobj \<Rightarrow> jsval" where
  "pageDescriptor urlPath page resolvedProps =
     JObj (obj_assign [(''path'', JStr urlPath), (''page'', page)] resolvedProps)"

text \<open>The body of the inner reduction in declarative mode.\<close>

definition addPage ::
  "(jsval \<Rightarrow> string \<Rightarrow> jsval) \<Rightarrow> pageTypeDef \<Rightarrow> jsval list \<Rightarrow> jsval \<Rightarrow>
   jsval list \<Rightarrow> jsval \<Rightarrow> jsval list" where
  "addPage get pageTypeDef data pathTemplate accum page =
     (case callInterpolate get pathTemplate page of
        Inl e \<Rightarrow> accum
      | Inr urlPath \<Rightarrow>
          accum @ [pageDescriptor urlPath page (reducePropsMap (def_props pageTypeDef) data)])"

text \<open>\<open>pageTypeDef.path || '/{slug}'\<close>.\<close>

definition pathTemplateOf :: "pageTypeDef \<Rightarrow> jsval" where
  "pathTemplateOf pageTypeDef =
     (if js_truthy (def_path pageTypeDef) then def_path pageTypeDef else JStr ''/{slug}'')"

text \<open>The body of the outer reduction in declarative mode.\<close>

definition addPageType ::
  "(jsval \<Rightarrow> string \<Rightarrow> jsval) \<Rightarrow> jsval list \<Rightarrow> jsval list \<Rightarrow> pageTypeDef \<Rightarrow> jsval list" where
  "addPageType get data accum pageTypeDef =
     (let pages = filter (def_predicate pageTypeDef) data;
          pathTemplate = pathTemplateOf pageTypeDef
      in foldl (addPage get pageTypeDef data pathTemplate) accum pages)"

fun reducePages :: "(jsval \<Rightarrow> string \<Rightarrow> jsval) \<Rightarrow> pagesSpec \<Rightarrow> jsval list \<Rightarrow> jsval list" where
  "reducePages get (PagesFn pagesFn) data = foldl (addItem get) [] (pagesFn data)"
| "reducePages get (PagesDefs pageTypeDefs) data = foldl (addPageType get data) [] pageTypeDefs"

text \<open>The snapshot \<open>{ props, pages }\<close>.\<close>

record snapshot =
  props :: jsobj
  pages :: "jsval list"


subsection \<open>What the reducers are compared with\<close>

text \<open>The value a prop definition binds its name to.\<close>

definition propValue :: "propDef \<Rightarrow> jsval list \<Rightarrow> jsval" where
  "propValue propDef data =
     (if js_truthy (prop_single propDef) then lodash_find (prop_predicate propDef) data
      else JArr (filter (prop_predicate propDef) data))"

text \<open>Whether the interpolation of an item, or of a record under a definition, succeeds.\<close>

definition resolves :: "(jsval \<Rightarrow> string \<Rightarrow> jsval) \<Rightarrow> jsval \<Rightarrow> jsval \<Rightarrow> bool" where
  "resolves get pathTemplate page =
     (case callInterpolate get pathTemplate page of Inl e \<Rightarrow> False | Inr urlPath \<Rightarrow> True)"

definition itemResolves :: "(jsval \<Rightarrow> string \<Rightarrow> jsval) \<Rightarrow> jsval \<Rightarrow> bool" where
  "itemResolves get item = resolves get (prop_get item ''path'') (prop_get item ''page'')"

text \<open>A definition narrowed to the records whose interpolation succeeds.\<close>

definition resolvingOnly :: "(jsval \<Rightarrow> string \<Rightarrow> jsval) \<Rightarrow> pageTypeDef \<Rightarrow> pageTypeDef" where
  "resolvingOnly get pageTypeDef =
     pageTypeDef \<lparr> def_predicate :=
       (\<lambda>r. def_predicate pageTypeDef r \<and> resolves get (pathTemplateOf pageTypeDef) r) \<rparr>"

text \<open>The entries one item, and one record under a definition, contribute: one or none.\<close>

definition itemEntry :: "(jsval \<Rightarrow> string \<Rightarrow> jsval) \<Rightarrow> jsval \<Rightarrow> jsval list" where
  "itemEntry get item =
     (case callInterpolate get (prop_get item ''path'') (prop_get item ''page'') of
        Inl e \<Rightarrow> []
      | Inr urlPath \<Rightarrow> [lodash_assign item [(''path'', JStr urlPath)]])"

definition pageEntry ::
  "(jsval \<Rightarrow> string \<Rightarrow> jsval) \<Rightarrow> pageTypeDef \<Rightarrow> jsval list \<Rightarrow> jsval \<Rightarrow> jsval list" where
  "pageEntry get pageTypeDef data page =
     (case callInterpolate get (pathTemplateOf pageTypeDef) page of
        Inl e \<Rightarrow> []
      | Inr urlPath \<Rightarrow>
          [pageDescriptor urlPath page (reducePropsMap (def_props pageTypeDef) data)])"

section \<open>The cache file and the data client\<close>

text \<open>
  A file holds a JSON document, given by the snapshot it parses to, or text that is not
  JSON. The file system maps the resolved absolute path of a file to what the file holds
  (links are not modelled), and is a function of the time in milliseconds: the producer
  is another process and writes while the client waits.
\<close>

datatype filedata = Json snapshot | NotJson

type_synonym filesystem = "string \<Rightarrow> filedata option"

definition path_join :: "string \<Rightarrow> string \<Rightarrow> string" where
  "path_join dir name =
     (if dir \<noteq> [] \<and> last dir = CHR ''/'' then dir @ name else dir @ CHR ''/'' # name)"

text \<open>
  \<open>process.cwd()\<close> is an absolute path in normal form, so the default path is the
  resolved path of the default file.
\<close>

definition DEFAULT_FILE_CACHE_PATH :: "string \<Rightarrow> string" where
  "DEFAULT_FILE_CACHE_PATH cwd = path_join cwd ''.sourcebit-nextjs-cache.json''"



definition retryDelay :: nat where
  "retryDelay = 500"

definition maxNumOfRetries :: nat where
  "maxNumOfRetries = 10"

text \<open>
  \<open>checkPathExists\<close>, with the clock and the counter \<open>numOfRetries\<close> as arguments: it
  gives the time at which the promise settles, and the rejection or the resolution. A
  look at the file takes no time, and the timer fires \<open>retryDelay\<close> after it is set.
\<close>

function checkPathExists ::
  "(nat \<Rightarrow> filesystem) \<Rightarrow> string \<Rightarrow> nat \<Rightarrow> nat \<Rightarrow> nat \<times> (error + unit)" where
  "checkPathExists fs path now numOfRetries =
     (if fs now path = None \<and> numOfRetries < maxNumOfRetries
      then checkPathExists fs path (now + retryDelay) (numOfRetries + 1)
      else if fs now path = None then (now, Inl (CacheNotFound path numOfRetries))
      else (now, Inr ()))"
  by pat_completeness auto
termination
  by (relation "measure (\<lambda>(fs, path, now, numOfRetries). maxNumOfRetries - numOfRetries)") auto

declare checkPathExists.simps [simp del]

definition readJson :: "filesystem \<Rightarrow> string \<Rightarrow> error + snapshot" where
  "readJson files path =
     (case files path of
        None \<Rightarrow> Inl (NoSuchFile path)
      | Some NotJson \<Rightarrow> Inl (InvalidJson path)
      | Some (Json data) \<Rightarrow> Inr data)"

text \<open>
  The client's methods take the file system, the working directory and the time of the
  call, and give the time they settle at with their result.
\<close>

definition getData :: "(nat \<Rightarrow> filesystem) \<Rightarrow> string \<Rightarrow> nat \<Rightarrow> nat \<times> (error + snapshot)" where
  "getData fs cwd now =
     (case checkPathExists fs (DEFAULT_FILE_CACHE_PATH cwd) now 0 of
        (t, Inl e) \<Rightarrow> (t, Inl e)
      | (t, Inr u) \<Rightarrow> (t, readJson (fs t) (DEFAULT_FILE_CACHE_PATH cwd)))"

text \<open>
  \<open>page.path\<close> outside a \<open>try\<close>: reading a property of \<open>undefined\<close> or \<open>null\<close> is a
  \<open>TypeError\<close>; any other value gives the property, or \<open>undefined\<close>.
\<close>

definition readProperty :: "jsval \<Rightarrow> string \<Rightarrow> error + jsval" where
  "readProperty v k = (if v = JUndefined \<or> v = JNull then Inl TypeError else Inr (prop_get v k))"

text \<open>
  \<open>_.map(data.pages, (page) => page.path)\<close>: the pages are read in order, and the first
  error ends the call.
\<close>

fun mapPaths :: "jsval list \<Rightarrow> error + jsval list" where
  "mapPaths [] = Inr []"
| "mapPaths (page # rest) =
     (case readProperty page ''path'' of
        Inl e \<Rightarrow> Inl e
      | Inr v \<Rightarrow> (case mapPaths rest of Inl e \<Rightarrow> Inl e | Inr vs \<Rightarrow> Inr (v # vs)))"

definition getStaticPaths ::
  "(nat \<Rightarrow> filesystem) \<Rightarrow> string \<Rightarrow> nat \<Rightarrow> nat \<times> (error + jsval list)" where
  "getStaticPaths fs cwd now =
     (case getData fs cwd now of
        (t, Inl e) \<Rightarrow> (t, Inl e)
      | (t, Inr data) \<Rightarrow> (t, mapPaths (pages data)))"

text \<open>
  \<open>_.find(data.pages, {path: pagePath})\<close> takes the first page whose \<open>path\<close> is
  strictly equal to the argument.
\<close>

definition getPropsFromCMSDataForPagePath :: "snapshot \<Rightarrow> string \<Rightarrow> jsval" where
  "getPropsFromCMSDataForPagePath data pagePath =
     (let page = lodash_find (\<lambda>p. prop_get p ''path'' = JStr pagePath) (pages data)
      in lodash_assign page (props data))"


section \<open>The live update channel\<close>

definition LIVE_UPDATE_EVENT_NAME :: string where
  "LIVE_UPDATE_EVENT_NAME = ''props_changed''"


text \<open>
  The state \<open>startStaticPropsWatcher\<close> works on. A socket is a number, a new one for each
  connection. \<open>listeners\<close> are the listeners of the event on the module's emitter, each
  named by the socket it closes over, in the order they were added; \<open>connected\<close> are the
  open sockets; \<open>sendCalls\<close> are the calls of \<open>ws.send\<close>, oldest first, and
  \<open>delivered\<close> those of them that reached a client.
\<close>

record watcher =
  listeners :: "nat list"
  connected :: "nat list"
  sendCalls :: "(nat \<times> string) list"
  delivered :: "(nat \<times> string) list"

definition noConnections :: watcher where
  "noConnections = \<lparr> listeners = [], connected = [], sendCalls = [], delivered = [] \<rparr>"

text \<open>
  Modelled from the spec: the \<open>ws\<close> package is a dependency and is not among the sources.
  The spec has sending to a closed connection be best-effort, with no delivery
  confirmation: the call is made, an open socket gets the message, a closed one gets
  nothing and nothing is raised.
\<close>

definition ws_send :: "nat \<Rightarrow> string \<Rightarrow> watcher \<Rightarrow> watcher" where
  "ws_send ws msg w =
     (let w' = w \<lparr> sendCalls := sendCalls w @ [(ws, msg)] \<rparr>
      in if ws \<in> set (connected w) then w' \<lparr> delivered := delivered w @ [(ws, msg)] \<rparr> else w')"

text \<open>
  The handler of \<open>connection\<close>: it adds a listener for the event and greets the socket.
  The handlers of \<open>message\<close> and \<open>close\<close> write to the console and do nothing else;
  the socket itself is closed by then.
\<close>

definition onConnection :: "nat \<Rightarrow> watcher \<Rightarrow> watcher" where
  "onConnection ws w =
     ws_send ws ''hello''
       (w \<lparr> listeners := listeners w @ [ws], connected := connected w @ [ws] \<rparr>)"

definition onMessage :: "nat \<Rightarrow> string \<Rightarrow> watcher \<Rightarrow> watcher" where
  "onMessage ws message w = w"

definition onClose :: "nat \<Rightarrow> watcher \<Rightarrow> watcher" where
  "onClose ws w = w \<lparr> connected := removeAll ws (connected w) \<rparr>"

text \<open>
  \<open>eventEmitter.emit(LIVE_UPDATE_EVENT_NAME)\<close>: every listener runs, in the order of
  registration, and sends the event's name on its socket.
\<close>

definition emit :: "watcher \<Rightarrow> watcher" where
  "emit w = foldl (\<lambda>w ws. ws_send ws LIVE_UPDATE_EVENT_NAME w) w (listeners w)"

datatype event = Connection nat | Message nat string | Close nat | Emit

fun step :: "watcher \<Rightarrow> event \<Rightarrow> watcher" where
  "step w (Connection ws) = onConnection ws w"
| "step w (Message ws message) = onMessage ws message w"
| "step w (Close ws) = onClose ws w"
| "step w Emit = emit w"

definition run :: "event list \<Rightarrow> watcher" where
  "run events = foldl step noConnections events"

text \<open>The sockets a run of events has accepted, in order.\<close>

fun accepted :: "event list \<Rightarrow> nat list" where
  "accepted [] = []"
| "accepted (Connection ws # es) = ws # accepted es"
| "accepted (e # es) = accepted es"

section \<open>The producer's transform\<close>





record producer =
  files :: filesystem
  emitter :: watcher





section \<open>Properties of the path interpolation\<close>



















section \<open>Properties of the props reducer\<close>

lemma map_of_obj_set: "map_of (obj_set fs k v) = (map_of fs)(k \<mapsto> v)"
  by (induction fs k v rule: obj_set.induct) auto

lemma keys_obj_set: "set (map fst (obj_set fs k v)) = insert k (set (map fst fs))"
  by (induction fs k v rule: obj_set.induct) auto

lemma distinct_obj_set: "distinct (map fst fs) \<Longrightarrow> distinct (map fst (obj_set fs k v))"
proof (induction fs k v rule: obj_set.induct)
  case (1 k v)
  show ?case by simp
next
  case (2 k' v' fs k v)
  then show ?case using keys_obj_set[of fs k v] by auto
qed

lemma map_of_obj_assign: "map_of (obj_assign a b) = map_of a ++ map_of (rev b)"
  unfolding obj_assign_def
proof (induction b arbitrary: a)
  case Nil
  show ?case by simp
next
  case (Cons x b)
  obtain k v where x: "x = (k, v)" by (cases x)
  show ?case
    by (simp add: x Cons map_of_obj_set map_add_def fun_eq_iff split: option.splits)
qed

lemma distinct_obj_assign: "distinct (map fst a) \<Longrightarrow> distinct (map fst (obj_assign a b))"
  unfolding obj_assign_def
  by (induction b arbitrary: a) (auto simp: distinct_obj_set split: prod.splits)

lemma map_of_rev_distinct: "distinct (map fst a) \<Longrightarrow> map_of (rev a) = map_of a"
  by (metis distinct_rev map_of_inject_set rev_map set_rev)

lemma reducePropsMap_foldl:
  "reducePropsMap (PropsMap m) data =
   foldl (\<lambda>accum (n, d). obj_assign (obj_assign [] accum) [(n, propValue d data)]) [] m"
proof -
  have "(\<lambda>accum (propName, propDef).
              if js_truthy (prop_single propDef)
              then obj_assign (obj_assign [] accum)
                     [(propName, lodash_find (prop_predicate propDef) data)]
              else obj_assign (obj_assign [] accum)
                     [(propName, JArr (filter (prop_predicate propDef) data))])
      = (\<lambda>accum (n, d). obj_assign (obj_assign [] accum) [(n, propValue d data)])"
    by (auto simp: fun_eq_iff propValue_def)
  then show ?thesis by simp
qed

lemma foldl_props:
  "distinct (map fst acc) \<Longrightarrow>
   distinct (map fst (foldl (\<lambda>accum (n, d).
       obj_assign (obj_assign [] accum) [(n, propValue d data)]) acc m))
   \<and> map_of (foldl (\<lambda>accum (n, d).
       obj_assign (obj_assign [] accum) [(n, propValue d data)]) acc m)
     = map_of acc ++ map_of (rev (map (\<lambda>(n, d). (n, propValue d data)) m))"
proof (induction m arbitrary: acc)
  case Nil
  then show ?case by simp
next
  case (Cons x m)
  obtain n d where x: "x = (n, d)" by (cases x)
  let ?acc' = "obj_assign (obj_assign [] acc) [(n, propValue d data)]"
  have d': "distinct (map fst ?acc')" by (simp add: distinct_obj_assign)
  have m': "map_of ?acc' = (map_of acc)(n \<mapsto> propValue d data)"
    using Cons.prems by (simp add: map_of_obj_assign map_of_rev_distinct)
  show ?case
    using Cons.IH[OF d'] by (simp add: x m' map_add_def fun_eq_iff split: option.splits)
qed

lemma map_of_reducePropsMap:
  "map_of (reducePropsMap (PropsMap m) data)
   = map_of (rev (map (\<lambda>(n, d). (n, propValue d data)) m))"
  using foldl_props[of "[]" data m] unfolding reducePropsMap_foldl by simp

lemma distinct_reducePropsMap: "distinct (map fst (reducePropsMap (PropsMap m) data))"
  using foldl_props[of "[]" data m] unfolding reducePropsMap_foldl by simp

text \<open>
  Claim C4. For a props mapping (an object: its names are distinct) and any records, the
  reduced props bind the name of a definition with a truthy \<open>single\<close> to the first
  record, in input order, that the predicate accepts, and to \<open>undefined\<close> when there is
  none; they bind the name of any other definition to the array of all the records the
  predicate accepts, in input order and with repetitions.
\<close>

theorem reducePropsMap_binding:
  assumes "distinct (map fst propsMap)" and "(propName, propDef) \<in> set propsMap"
  shows "map_of (reducePropsMap (PropsMap propsMap) data) propName =
     Some (if js_truthy (prop_single propDef)
           then (case List.find (prop_predicate propDef) data of
                   None \<Rightarrow> JUndefined
                 | Some r \<Rightarrow> r)
           else JArr (filter (prop_predicate propDef) data))"
proof -
  have "distinct (map fst (rev (map (\<lambda>(n, d). (n, propValue d data)) propsMap)))"
    using assms(1) by (simp add: rev_map[symmetric] comp_def case_prod_unfold)
  moreover have "(propName, propValue propDef data)
      \<in> set (rev (map (\<lambda>(n, d). (n, propValue d data)) propsMap))"
    using assms(2) by force
  ultimately have "map_of (rev (map (\<lambda>(n, d). (n, propValue d data)) propsMap)) propName
      = Some (propValue propDef data)"
    by (rule map_of_is_SomeI)
  then show ?thesis
    unfolding map_of_reducePropsMap by (simp add: propValue_def lodash_find_def)
qed

theorem reducePropsMap_binding_witness:
  "distinct (map fst
     [(''first'', \<lparr> prop_single = JBool True,
                   prop_predicate = (\<lambda>r. js_truthy (prop_get r ''draft'')) \<rparr>),
      (''all'', \<lparr> prop_single = JBool False,
                 prop_predicate = (\<lambda>r. js_truthy (prop_get r ''draft'')) \<rparr>)])
   \<and> map_of (reducePropsMap (PropsMap
       [(''first'', \<lparr> prop_single = JBool True,
                     prop_predicate = (\<lambda>r. js_truthy (prop_get r ''draft'')) \<rparr>),
        (''all'', \<lparr> prop_single = JBool False,
                   prop_predicate = (\<lambda>r. js_truthy (prop_get r ''draft'')) \<rparr>)])
       [JObj [(''draft'', JBool True)], JObj [(''draft'', JBool False)],
        JObj [(''draft'', JBool True)]]) ''all''
     = Some (JArr [JObj [(''draft'', JBool True)], JObj [(''draft'', JBool True)]])"
  using reducePropsMap_binding
    [of "[(''first'', \<lparr> prop_single = JBool True,
                       prop_predicate = (\<lambda>r. js_truthy (prop_get r ''draft'')) \<rparr>),
          (''all'', \<lparr> prop_single = JBool False,
                     prop_predicate = (\<lambda>r. js_truthy (prop_get r ''draft'')) \<rparr>)]"
        "''all''"
        "\<lparr> prop_single = JBool False,
           prop_predicate = (\<lambda>r. js_truthy (prop_get r ''draft'')) \<rparr>"
        "[JObj [(''draft'', JBool True)], JObj [(''draft'', JBool False)],
          JObj [(''draft'', JBool True)]]"]
  by (simp add: obj_get_def)

section \<open>Properties of the page reducer\<close>

lemma addItem_entry: "addItem get accum item = accum @ itemEntry get item"
  by (simp add: addItem_def itemEntry_def split: sum.splits)

lemma addPage_entry:
  "addPage get d data (pathTemplateOf d) accum page = accum @ pageEntry get d data page"
  by (simp add: addPage_def pageEntry_def split: sum.splits)

lemma foldl_addItem: "foldl (addItem get) accum items = accum @ concat (map (itemEntry get) items)"
  by (induction items arbitrary: accum) (simp_all add: addItem_entry)

lemma foldl_addPage:
  "foldl (addPage get d data (pathTemplateOf d)) accum ps
   = accum @ concat (map (pageEntry get d data) ps)"
  by (induction ps arbitrary: accum) (simp_all add: addPage_entry)

lemma addPageType_entries:
  "addPageType get data accum d
   = accum @ concat (map (pageEntry get d data) (filter (def_predicate d) data))"
  by (simp add: addPageType_def Let_def foldl_addPage)

lemma foldl_addPageType:
  "foldl (addPageType get data) accum defs
   = accum @ concat (map (\<lambda>d. concat (map (pageEntry get d data) (filter (def_predicate d) data))) defs)"
  by (induction defs arbitrary: accum) (simp_all add: addPageType_entries)

lemma reducePages_fn_entries:
  "reducePages get (PagesFn pagesFn) data = concat (map (itemEntry get) (pagesFn data))"
  by (simp add: foldl_addItem)

lemma reducePages_defs_entries:
  "reducePages get (PagesDefs defs) data
   = concat (map (\<lambda>d. concat (map (pageEntry get d data) (filter (def_predicate d) data))) defs)"
  by (simp add: foldl_addPageType)

lemma itemEntry_unresolved: "\<not> itemResolves get item \<Longrightarrow> itemEntry get item = []"
  by (simp add: itemResolves_def resolves_def itemEntry_def split: sum.splits)

lemma pageEntry_unresolved: "\<not> resolves get (pathTemplateOf d) r \<Longrightarrow> pageEntry get d data r = []"
  by (simp add: resolves_def pageEntry_def split: sum.splits)

lemma concat_map_filter_nonempty:
  "(\<And>x. \<not> P x \<Longrightarrow> f x = []) \<Longrightarrow> concat (map f (filter P xs)) = concat (map f xs)"
  by (induction xs) simp_all

lemma concat_map_filter_conj:
  "(\<And>x. \<not> P x \<Longrightarrow> f x = []) \<Longrightarrow>
   concat (map f (filter (\<lambda>x. Q x \<and> P x) xs)) = concat (map f (filter Q xs))"
  by (induction xs) simp_all

lemma resolvingOnly_fields:
  "pathTemplateOf (resolvingOnly get d) = pathTemplateOf d"
  "def_props (resolvingOnly get d) = def_props d"
  "def_predicate (resolvingOnly get d)
   = (\<lambda>r. def_predicate d r \<and> resolves get (pathTemplateOf d) r)"
  by (simp_all add: resolvingOnly_def pathTemplateOf_def)

lemma pageEntry_resolvingOnly: "pageEntry get (resolvingOnly get d) data = pageEntry get d data"
  unfolding fun_eq_iff pageEntry_def resolvingOnly_fields by simp

lemma entries_resolvingOnly:
  "concat (map (pageEntry get (resolvingOnly get d) data)
     (filter (def_predicate (resolvingOnly get d)) data))
   = concat (map (pageEntry get d data) (filter (def_predicate d) data))"
  unfolding pageEntry_resolvingOnly resolvingOnly_fields
  by (rule concat_map_filter_conj) (rule pageEntry_unresolved)

lemma prop_get_pageDescriptor:
  "prop_get (pageDescriptor u r ps) k
   = (case map_of (rev ps) k of
        Some v \<Rightarrow> v
      | None \<Rightarrow> obj_get [(''path'', JStr u), (''page'', r)] k)"
  by (simp add: pageDescriptor_def obj_get_def map_of_obj_assign map_add_def split: option.splits)


lemma entries_drop_failing:
  "(def_predicate d r \<longrightarrow> \<not> resolves get (pathTemplateOf d) r) \<Longrightarrow>
   concat (map (pageEntry get d data) (filter (def_predicate d) (xs @ r # ys)))
   = concat (map (pageEntry get d data) (filter (def_predicate d) (xs @ ys)))"
  by (simp add: pageEntry_unresolved)

lemma pageEntry_same_props:
  "reducePropsMap (def_props d) data = reducePropsMap (def_props d) data' \<Longrightarrow>
   pageEntry get d data = pageEntry get d data'"
  by (simp add: fun_eq_iff pageEntry_def cong: sum.case_cong)

lemma reducePages_drop_failing:
  assumes "list_all (\<lambda>d. def_predicate d r \<longrightarrow> \<not> resolves get (pathTemplateOf d) r) defs"
  shows "reducePages get (PagesDefs defs) (xs @ r # ys)
     = concat (map (\<lambda>d. concat (map (pageEntry get d (xs @ r # ys))
                                  (filter (def_predicate d) (xs @ ys)))) defs)"
proof -
  have "\<And>d. d \<in> set defs \<Longrightarrow>
      concat (map (pageEntry get d (xs @ r # ys)) (filter (def_predicate d) (xs @ r # ys)))
      = concat (map (pageEntry get d (xs @ r # ys)) (filter (def_predicate d) (xs @ ys)))"
    using assms by (intro entries_drop_failing) (simp add: list_all_iff)
  then have "map (\<lambda>d. concat (map (pageEntry get d (xs @ r # ys))
                 (filter (def_predicate d) (xs @ r # ys)))) defs
      = map (\<lambda>d. concat (map (pageEntry get d (xs @ r # ys))
                 (filter (def_predicate d) (xs @ ys)))) defs"
    by (intro map_cong) simp_all
  then show ?thesis
    unfolding reducePages_defs_entries by (rule arg_cong[of _ _ concat])
qed

lemma reducePages_without_failing:
  assumes "list_all (\<lambda>d. (def_predicate d r \<longrightarrow> \<not> resolves get (pathTemplateOf d) r)
              \<and> reducePropsMap (def_props d) (xs @ r # ys)
                  = reducePropsMap (def_props d) (xs @ ys)) defs"
  shows "reducePages get (PagesDefs defs) (xs @ r # ys)
     = reducePages get (PagesDefs defs) (xs @ ys)"
proof -
  have f: "list_all (\<lambda>d. def_predicate d r \<longrightarrow> \<not> resolves get (pathTemplateOf d) r) defs"
    using assms by (simp add: list_all_iff)
  have "\<And>d. d \<in> set defs \<Longrightarrow> pageEntry get d (xs @ r # ys) = pageEntry get d (xs @ ys)"
    using assms by (intro pageEntry_same_props) (simp add: list_all_iff)
  then have "map (\<lambda>d. concat (map (pageEntry get d (xs @ r # ys))
                 (filter (def_predicate d) (xs @ ys)))) defs
      = map (\<lambda>d. concat (map (pageEntry get d (xs @ ys))
                 (filter (def_predicate d) (xs @ ys)))) defs"
    by (intro map_cong) simp_all
  then show ?thesis
    unfolding reducePages_drop_failing[OF f] reducePages_defs_entries[of get defs "xs @ ys"]
    by (rule arg_cong[of _ _ concat])
qed

text \<open>
  Claim C3, as amended. In both modes \<open>reducePages\<close> is a total function that gives a
  list: nothing the interpolation throws leaves it. A step of the reduction on an item or
  a record whose interpolation fails gives back the accumulator as it was, so that the
  record has no entry. In function mode the result is the same as when the failing item
  is not among the items. In declarative mode the result is the same as when no
  definition's predicate accepts a record that fails under it; for a record that fails
  under every definition that accepts it, the pages are the entries of the other records
  with the props still reduced from the full list, the failing record included, and they
  are the pages of the list without the record when the record changes no definition's
  reduced props. (The claim has the other entries be those of the list without the
  failing record in every case; their props can hold the failing record.)
\<close>

theorem reducePages_skips_failures:
  "(\<not> itemResolves get item \<longrightarrow> addItem get accum item = accum)
   \<and> (\<not> resolves get pathTemplate page \<longrightarrow> addPage get d data pathTemplate accum page = accum)
   \<and> reducePages get (PagesFn pagesFn) data = concat (map (itemEntry get) (pagesFn data))
   \<and> (pagesFn data = xs @ item # ys \<and> \<not> itemResolves get item \<longrightarrow>
        reducePages get (PagesFn pagesFn) data
        = reducePages get (PagesFn (\<lambda>objects. xs @ ys)) data)
   \<and> reducePages get (PagesDefs defs) data
       = reducePages get (PagesDefs (map (resolvingOnly get) defs)) data
   \<and> (list_all (\<lambda>d. def_predicate d r \<longrightarrow> \<not> resolves get (pathTemplateOf d) r) defs \<longrightarrow>
        reducePages get (PagesDefs defs) (xs @ r # ys)
        = concat (map (\<lambda>d. concat (map (pageEntry get d (xs @ r # ys))
                                     (filter (def_predicate d) (xs @ ys)))) defs))
   \<and> (list_all (\<lambda>d. (def_predicate d r \<longrightarrow> \<not> resolves get (pathTemplateOf d) r)
              \<and> reducePropsMap (def_props d) (xs @ r # ys)
                  = reducePropsMap (def_props d) (xs @ ys)) defs \<longrightarrow>
        reducePages get (PagesDefs defs) (xs @ r # ys)
        = reducePages get (PagesDefs defs) (xs @ ys))"
proof -
  have 1: "\<not> itemResolves get item \<longrightarrow> addItem get accum item = accum"
    by (simp add: addItem_entry itemEntry_unresolved)
  have 2: "\<not> resolves get pathTemplate page \<longrightarrow> addPage get d data pathTemplate accum page = accum"
    by (simp add: resolves_def addPage_def split: sum.splits)
  have 3: "pagesFn data = xs @ item # ys \<and> \<not> itemResolves get item \<longrightarrow>
        reducePages get (PagesFn pagesFn) data
        = reducePages get (PagesFn (\<lambda>objects. xs @ ys)) data"
    unfolding reducePages_fn_entries by (simp add: itemEntry_unresolved)
  have 4: "reducePages get (PagesDefs defs) data
       = reducePages get (PagesDefs (map (resolvingOnly get) defs)) data"
    unfolding reducePages_defs_entries
    by (simp add: comp_def entries_resolvingOnly)
  show ?thesis
    using 1 2 3 4 reducePages_fn_entries[of get pagesFn data]
      reducePages_drop_failing[where r = r and get = get and defs = defs and xs = xs and ys = ys]
      reducePages_without_failing[where r = r and get = get and defs = defs and xs = xs and ys = ys]
    by blast
qed

theorem reducePages_skips_failures_witness:
  "\<not> itemResolves dotted_get
       (JObj [(''path'', JStr ''/blog/{slug}''), (''page'', JObj [(''title'', JStr ''x'')])])
   \<and> addItem dotted_get []
       (JObj [(''path'', JStr ''/blog/{slug}''), (''page'', JObj [(''title'', JStr ''x'')])]) = []
   \<and> \<not> resolves dotted_get (JStr ''/{slug}'') (JObj [(''title'', JStr ''x'')])
   \<and> reducePages dotted_get
        (PagesFn (map (\<lambda>r. JObj [(''path'', JStr ''/blog/{slug}''), (''page'', r)])))
        [JObj [(''title'', JStr ''x'')], JObj [(''slug'', JStr ''a'')]]
      = [JObj [(''path'', JStr ''/blog/a''), (''page'', JObj [(''slug'', JStr ''a'')])]]
   \<and> reducePages dotted_get
        (PagesDefs [\<lparr> def_predicate = (\<lambda>r. True), def_path = JStr ''/blog/{slug}'',
                      def_props = PropsMap [] \<rparr>])
        [JObj [(''title'', JStr ''x'')], JObj [(''slug'', JStr ''a'')]]
      = reducePages dotted_get
        (PagesDefs [\<lparr> def_predicate = (\<lambda>r. True), def_path = JStr ''/blog/{slug}'',
                      def_props = PropsMap [] \<rparr>])
        [JObj [(''slug'', JStr ''a'')]]"
proof -
  note inst = reducePages_skips_failures [where get = dotted_get
      and item = "JObj [(''path'', JStr ''/blog/{slug}''), (''page'', JObj [(''title'', JStr ''x'')])]"
      and accum = "[]" and pathTemplate = "JStr ''/{slug}''"
      and page = "JObj [(''title'', JStr ''x'')]"
      and pagesFn = "map (\<lambda>r. JObj [(''path'', JStr ''/blog/{slug}''), (''page'', r)])"
      and data = "[JObj [(''title'', JStr ''x'')], JObj [(''slug'', JStr ''a'')]]"
      and defs = "[\<lparr> def_predicate = (\<lambda>r. True), def_path = JStr ''/blog/{slug}'',
                      def_props = PropsMap [] \<rparr>]"
      and r = "JObj [(''title'', JStr ''x'')]" and xs = "[]"
      and ys = "[JObj [(''slug'', JStr ''a'')]]"]
  have fails: "\<not> resolves dotted_get (JStr ''/blog/{slug}'') (JObj [(''title'', JStr ''x'')])"
    by (simp add: resolves_def interpolatePagePath_def replacer_def dotted_get_def)
  have last: "reducePages dotted_get
        (PagesDefs [\<lparr> def_predicate = (\<lambda>r. True), def_path = JStr ''/blog/{slug}'',
                      def_props = PropsMap [] \<rparr>])
        ([] @ JObj [(''title'', JStr ''x'')] # [JObj [(''slug'', JStr ''a'')]])
      = reducePages dotted_get
        (PagesDefs [\<lparr> def_predicate = (\<lambda>r. True), def_path = JStr ''/blog/{slug}'',
                      def_props = PropsMap [] \<rparr>])
        ([] @ [JObj [(''slug'', JStr ''a'')]])"
    by (rule inst[THEN conjunct2, THEN conjunct2, THEN conjunct2, THEN conjunct2,
          THEN conjunct2, THEN conjunct2, rule_format])
      (simp add: fails pathTemplateOf_def)
  have rest: "\<not> itemResolves dotted_get
       (JObj [(''path'', JStr ''/blog/{slug}''), (''page'', JObj [(''title'', JStr ''x'')])])
   \<and> addItem dotted_get []
       (JObj [(''path'', JStr ''/blog/{slug}''), (''page'', JObj [(''title'', JStr ''x'')])]) = []
   \<and> \<not> resolves dotted_get (JStr ''/{slug}'') (JObj [(''title'', JStr ''x'')])
   \<and> reducePages dotted_get
        (PagesFn (map (\<lambda>r. JObj [(''path'', JStr ''/blog/{slug}''), (''page'', r)])))
        [JObj [(''title'', JStr ''x'')], JObj [(''slug'', JStr ''a'')]]
      = [JObj [(''path'', JStr ''/blog/a''), (''page'', JObj [(''slug'', JStr ''a'')])]]"
    by (simp add: itemResolves_def resolves_def itemEntry_def addItem_def interpolatePagePath_def
      replacer_def dotted_get_def obj_get_def lodash_trim_def toString_def trim_chars_def
      startsWith_def obj_assign_def)
  have last': "reducePages dotted_get
        (PagesDefs [\<lparr> def_predicate = (\<lambda>r. True), def_path = JStr ''/blog/{slug}'',
                      def_props = PropsMap [] \<rparr>])
        [JObj [(''title'', JStr ''x'')], JObj [(''slug'', JStr ''a'')]]
      = reducePages dotted_get
        (PagesDefs [\<lparr> def_predicate = (\<lambda>r. True), def_path = JStr ''/blog/{slug}'',
                      def_props = PropsMap [] \<rparr>])
        [JObj [(''slug'', JStr ''a'')]]"
    using last by (simp only: append_Nil)
  from rest last' show ?thesis by blast
qed

text \<open>
  One definition that accepts every record and binds the prop \<open>all\<close> to all records: the
  record without a slug has no page, and the page of the other record holds both records
  under \<open>all\<close>, where the list without the failing record gives only the one.
\<close>

theorem reducePages_props_see_failing_record:
  "\<not> resolves dotted_get (JStr ''/{slug}'') (JObj [(''title'', JStr ''x'')])
   \<and> reducePages dotted_get (PagesDefs [\<lparr> def_predicate = (\<lambda>r. True), def_path = JUndefined,
       def_props = PropsMap [(''all'', \<lparr> prop_single = JBool False,
          prop_predicate = (\<lambda>r. True) \<rparr>)] \<rparr>])
        [JObj [(''title'', JStr ''x'')], JObj [(''slug'', JStr ''a'')]]
      = [JObj [(''path'', JStr ''/a''), (''page'', JObj [(''slug'', JStr ''a'')]),
               (''all'', JArr [JObj [(''title'', JStr ''x'')], JObj [(''slug'', JStr ''a'')]])]]
   \<and> reducePages dotted_get (PagesDefs [\<lparr> def_predicate = (\<lambda>r. True), def_path = JUndefined,
       def_props = PropsMap [(''all'', \<lparr> prop_single = JBool False,
          prop_predicate = (\<lambda>r. True) \<rparr>)] \<rparr>])
        [JObj [(''slug'', JStr ''a'')]]
      = [JObj [(''path'', JStr ''/a''), (''page'', JObj [(''slug'', JStr ''a'')]),
               (''all'', JArr [JObj [(''slug'', JStr ''a'')]])]]
   \<and> JObj [(''path'', JStr ''/a''), (''page'', JObj [(''slug'', JStr ''a'')]),
               (''all'', JArr [JObj [(''title'', JStr ''x'')], JObj [(''slug'', JStr ''a'')]])]
      \<noteq> JObj [(''path'', JStr ''/a''), (''page'', JObj [(''slug'', JStr ''a'')]),
               (''all'', JArr [JObj [(''slug'', JStr ''a'')]])]"
  by (simp add: resolves_def addPageType_def addPage_def pathTemplateOf_def pageDescriptor_def
      interpolatePagePath_def lodash_find_def
      replacer_def dotted_get_def obj_get_def lodash_trim_def toString_def trim_chars_def
      startsWith_def obj_assign_def)

text \<open>
  Claim C5, as amended. In declarative mode the pages are, definition by definition and
  within a definition record by record in input order, one descriptor for each record
  that the definition's predicate accepts and whose interpolation succeeds. The template
  is the definition's \<open>path\<close>, or \<open>/{slug}\<close> when that is not given. The descriptor is
  the object \<open>{ path, page, ...props }\<close> with the props reduced from the definition's
  \<open>props\<close> over the full list of records: it has every prop under its name, nothing
  beside \<open>path\<close>, \<open>page\<close> and the props, \<open>path\<close> is the interpolated path unless a prop
  is named \<open>path\<close>, and \<open>page\<close> is the record unless a prop is named \<open>page\<close>. (The
  claim has \<open>path\<close> and \<open>page\<close> be the interpolated path and the record for every
  definition; a prop of that name takes their place.)
\<close>

theorem reducePages_declarative:
  "reducePages get (PagesDefs defs) data
     = concat (map (\<lambda>d. concat (map (pageEntry get d data) (filter (def_predicate d) data))) defs)
   \<and> (callInterpolate get (pathTemplateOf d) r = Inr u \<longrightarrow>
        pageEntry get d data r = [pageDescriptor u r (reducePropsMap (def_props d) data)])
   \<and> (\<not> js_truthy (def_path d) \<longrightarrow> pathTemplateOf d = JStr ''/{slug}'')
   \<and> (''path'' \<notin> fst ` set ps \<longrightarrow> prop_get (pageDescriptor u r ps) ''path'' = JStr u)
   \<and> (''page'' \<notin> fst ` set ps \<longrightarrow> prop_get (pageDescriptor u r ps) ''page'' = r)
   \<and> (distinct (map fst ps) \<and> (k, v) \<in> set ps \<longrightarrow> prop_get (pageDescriptor u r ps) k = v)
   \<and> (k \<notin> fst ` set ps \<and> k \<noteq> ''path'' \<and> k \<noteq> ''page'' \<longrightarrow>
        prop_get (pageDescriptor u r ps) k = JUndefined)"
proof -
  have none: "\<And>x. x \<notin> fst ` set ps \<Longrightarrow> map_of (rev ps) x = None"
    by (simp add: map_of_eq_None_iff)
  have 2: "callInterpolate get (pathTemplateOf d) r = Inr u \<longrightarrow>
        pageEntry get d data r = [pageDescriptor u r (reducePropsMap (def_props d) data)]"
    by (simp add: pageEntry_def)
  have 3: "\<not> js_truthy (def_path d) \<longrightarrow> pathTemplateOf d = JStr ''/{slug}''"
    by (simp add: pathTemplateOf_def)
  have 4: "''path'' \<notin> fst ` set ps \<longrightarrow> prop_get (pageDescriptor u r ps) ''path'' = JStr u"
    using none[of "''path''"] by (auto simp: prop_get_pageDescriptor obj_get_def)
  have 5: "''page'' \<notin> fst ` set ps \<longrightarrow> prop_get (pageDescriptor u r ps) ''page'' = r"
    using none[of "''page''"] by (auto simp: prop_get_pageDescriptor obj_get_def)
  have 6: "distinct (map fst ps) \<and> (k, v) \<in> set ps \<longrightarrow> prop_get (pageDescriptor u r ps) k = v"
  proof
    assume a: "distinct (map fst ps) \<and> (k, v) \<in> set ps"
    then have "map_of ps k = Some v" by simp
    then have "map_of (rev ps) k = Some v" using a by (simp add: map_of_rev_distinct)
    then show "prop_get (pageDescriptor u r ps) k = v" by (simp add: prop_get_pageDescriptor)
  qed
  have 7: "k \<notin> fst ` set ps \<and> k \<noteq> ''path'' \<and> k \<noteq> ''page'' \<longrightarrow>
        prop_get (pageDescriptor u r ps) k = JUndefined"
    using none[of k] by (auto simp: prop_get_pageDescriptor obj_get_def)
  show ?thesis
    using reducePages_defs_entries[of get defs data] 2 3 4 5 6 7 by blast
qed


theorem reducePages_declarative_witness:
  "\<not> js_truthy (def_path \<lparr> def_predicate = (\<lambda>r. prop_get r ''type'' = JStr ''post''),
        def_path = JUndefined,
        def_props = PropsMap [(''settings'', \<lparr> prop_single = JBool True,
          prop_predicate = (\<lambda>r. prop_get r ''type'' = JStr ''settings'') \<rparr>)] \<rparr>)
   \<and> ''path'' \<notin> fst ` set [(''settings'', JObj [(''type'', JStr ''settings'')])]
   \<and> ''page'' \<notin> fst ` set [(''settings'', JObj [(''type'', JStr ''settings'')])]
   \<and> distinct (map fst [(''settings'', JObj [(''type'', JStr ''settings'')])])
   \<and> reducePages dotted_get (PagesDefs [\<lparr> def_predicate = (\<lambda>r. prop_get r ''type'' = JStr ''post''),
        def_path = JUndefined,
        def_props = PropsMap [(''settings'', \<lparr> prop_single = JBool True,
          prop_predicate = (\<lambda>r. prop_get r ''type'' = JStr ''settings'') \<rparr>)] \<rparr>])
        [JObj [(''type'', JStr ''settings'')],
         JObj [(''type'', JStr ''post''), (''slug'', JStr ''a'')]]
      = [pageDescriptor ''/a'' (JObj [(''type'', JStr ''post''), (''slug'', JStr ''a'')])
           [(''settings'', JObj [(''type'', JStr ''settings'')])]]
   \<and> prop_get (pageDescriptor ''/a'' (JObj [(''type'', JStr ''post''), (''slug'', JStr ''a'')])
           [(''settings'', JObj [(''type'', JStr ''settings'')])]) ''settings''
      = JObj [(''type'', JStr ''settings'')]"
  using reducePages_declarative [where get = dotted_get
      and defs = "[\<lparr> def_predicate = (\<lambda>r. prop_get r ''type'' = JStr ''post''),
        def_path = JUndefined,
        def_props = PropsMap [(''settings'', \<lparr> prop_single = JBool True,
          prop_predicate = (\<lambda>r. prop_get r ''type'' = JStr ''settings'') \<rparr>)] \<rparr>]"
      and d = "\<lparr> def_predicate = (\<lambda>r. prop_get r ''type'' = JStr ''post''),
        def_path = JUndefined,
        def_props = PropsMap [(''settings'', \<lparr> prop_single = JBool True,
          prop_predicate = (\<lambda>r. prop_get r ''type'' = JStr ''settings'') \<rparr>)] \<rparr>"
      and data = "[JObj [(''type'', JStr ''settings'')],
         JObj [(''type'', JStr ''post''), (''slug'', JStr ''a'')]]"
      and r = "JObj [(''type'', JStr ''post''), (''slug'', JStr ''a'')]"
      and u = "''/a''"
      and ps = "[(''settings'', JObj [(''type'', JStr ''settings'')])]"
      and k = "''settings''" and v = "JObj [(''type'', JStr ''settings'')]"]
  by (simp add: pageEntry_def pathTemplateOf_def interpolatePagePath_def lodash_find_def
      replacer_def dotted_get_def obj_get_def lodash_trim_def toString_def trim_chars_def
      startsWith_def obj_assign_def)


text \<open>
  One definition that accepts every record and has a prop named \<open>page\<close>, bound to the
  first record whose slug is \<open>b\<close>: the descriptor of the record with slug \<open>a\<close> has the
  other record as its \<open>page\<close>.
\<close>

theorem reducePages_prop_named_page:
  "def_predicate \<lparr> def_predicate = (\<lambda>r. True), def_path = JUndefined,
       def_props = PropsMap [(''page'', \<lparr> prop_single = JBool True,
          prop_predicate = (\<lambda>r. prop_get r ''slug'' = JStr ''b'') \<rparr>)] \<rparr>
     (JObj [(''slug'', JStr ''a'')])
   \<and> reducePages dotted_get (PagesDefs [\<lparr> def_predicate = (\<lambda>r. True), def_path = JUndefined,
       def_props = PropsMap [(''page'', \<lparr> prop_single = JBool True,
          prop_predicate = (\<lambda>r. prop_get r ''slug'' = JStr ''b'') \<rparr>)] \<rparr>])
        [JObj [(''slug'', JStr ''a'')], JObj [(''slug'', JStr ''b'')]]
      = [JObj [(''path'', JStr ''/a''), (''page'', JObj [(''slug'', JStr ''b'')])],
         JObj [(''path'', JStr ''/b''), (''page'', JObj [(''slug'', JStr ''b'')])]]
   \<and> prop_get (JObj [(''path'', JStr ''/a''), (''page'', JObj [(''slug'', JStr ''b'')])]) ''page''
      \<noteq> JObj [(''slug'', JStr ''a'')]"
  by (simp add: addPageType_def addPage_def pathTemplateOf_def pageDescriptor_def
      interpolatePagePath_def lodash_find_def
      replacer_def dotted_get_def obj_get_def lodash_trim_def toString_def trim_chars_def
      startsWith_def obj_assign_def)


section \<open>Properties of the data client\<close>

lemma find_path_is_object:
  "List.find (\<lambda>p. prop_get p ''path'' = JStr pagePath) ps = Some page \<Longrightarrow> \<exists>fs. page = JObj fs"
proof -
  assume "List.find (\<lambda>p. prop_get p ''path'' = JStr pagePath) ps = Some page"
  then have "prop_get page ''path'' = JStr pagePath" by (auto simp: find_Some_iff)
  then show ?thesis by (cases page) simp_all
qed


text \<open>
  Claim C6, as amended. The lookup takes the first page whose \<open>path\<close> is the argument,
  compared as it is. When there is one, the result is that page with the shared props
  written onto it: a shared prop has its shared value, whatever the page had under that
  name, and every other property is the page's. When there is none, the result is a new
  object that holds the shared props and nothing else. (The claim has the result be
  \<open>undefined\<close> then; \<open>_.assign\<close> makes an object of an \<open>undefined\<close> target.)
\<close>

theorem getPropsFromCMSDataForPagePath_merge:
  "(List.find (\<lambda>p. prop_get p ''path'' = JStr pagePath) (pages data) = None \<longrightarrow>
      getPropsFromCMSDataForPagePath data pagePath = JObj (obj_assign [] (props data)))
   \<and> (List.find (\<lambda>p. prop_get p ''path'' = JStr pagePath) (pages data) = Some page \<longrightarrow>
      (\<exists>fs. page = JObj fs
         \<and> getPropsFromCMSDataForPagePath data pagePath = JObj (obj_assign fs (props data))))
   \<and> (distinct (map fst sharedProps) \<and> (k, v) \<in> set sharedProps \<longrightarrow>
        obj_get (obj_assign fs sharedProps) k = v)
   \<and> (k \<notin> fst ` set sharedProps \<longrightarrow> obj_get (obj_assign fs sharedProps) k = obj_get fs k)"
proof -
  have 1: "List.find (\<lambda>p. prop_get p ''path'' = JStr pagePath) (pages data) = None \<longrightarrow>
      getPropsFromCMSDataForPagePath data pagePath = JObj (obj_assign [] (props data))"
    by (simp add: getPropsFromCMSDataForPagePath_def lodash_find_def)
  have 2: "List.find (\<lambda>p. prop_get p ''path'' = JStr pagePath) (pages data) = Some page \<longrightarrow>
      (\<exists>fs. page = JObj fs
         \<and> getPropsFromCMSDataForPagePath data pagePath = JObj (obj_assign fs (props data)))"
  proof
    assume f: "List.find (\<lambda>p. prop_get p ''path'' = JStr pagePath) (pages data) = Some page"
    then obtain fs where "page = JObj fs" using find_path_is_object by blast
    then show "\<exists>fs. page = JObj fs
         \<and> getPropsFromCMSDataForPagePath data pagePath = JObj (obj_assign fs (props data))"
      using f by (simp add: getPropsFromCMSDataForPagePath_def lodash_find_def)
  qed
  have 3: "distinct (map fst sharedProps) \<and> (k, v) \<in> set sharedProps \<longrightarrow>
        obj_get (obj_assign fs sharedProps) k = v"
  proof
    assume a: "distinct (map fst sharedProps) \<and> (k, v) \<in> set sharedProps"
    then have "map_of sharedProps k = Some v" by simp
    then have "map_of (rev sharedProps) k = Some v" using a by (simp add: map_of_rev_distinct)
    then show "obj_get (obj_assign fs sharedProps) k = v"
      by (simp add: obj_get_def map_of_obj_assign)
  qed
  have 4: "k \<notin> fst ` set sharedProps \<longrightarrow> obj_get (obj_assign fs sharedProps) k = obj_get fs k"
  proof
    assume "k \<notin> fst ` set sharedProps"
    then have "map_of (rev sharedProps) k = None" by (simp add: map_of_eq_None_iff)
    then show "obj_get (obj_assign fs sharedProps) k = obj_get fs k"
      by (simp add: obj_get_def map_of_obj_assign map_add_def)
  qed
  from 1 2 3 4 show ?thesis by blast
qed


theorem getPropsFromCMSDataForPagePath_merge_witness:
  "List.find (\<lambda>p. prop_get p ''path'' = JStr ''/a'')
     (pages \<lparr> props = [(''title'', JStr ''B'')],
              pages = [JObj [(''path'', JStr ''/a''), (''title'', JStr ''A'')]] \<rparr>)
     = Some (JObj [(''path'', JStr ''/a''), (''title'', JStr ''A'')])
   \<and> getPropsFromCMSDataForPagePath
       \<lparr> props = [(''title'', JStr ''B'')],
         pages = [JObj [(''path'', JStr ''/a''), (''title'', JStr ''A'')]] \<rparr> ''/a''
     = JObj [(''path'', JStr ''/a''), (''title'', JStr ''B'')]
   \<and> distinct (map fst [(''title'', JStr ''B'')])
   \<and> obj_get (obj_assign [(''path'', JStr ''/a''), (''title'', JStr ''A'')] [(''title'', JStr ''B'')])
        ''title'' = JStr ''B''
   \<and> obj_get (obj_assign [(''path'', JStr ''/a''), (''title'', JStr ''A'')] [(''title'', JStr ''B'')])
        ''path'' = JStr ''/a''"
  using getPropsFromCMSDataForPagePath_merge [where pagePath = "''/a''"
      and data = "\<lparr> props = [(''title'', JStr ''B'')],
         pages = [JObj [(''path'', JStr ''/a''), (''title'', JStr ''A'')]] \<rparr>"
      and page = "JObj [(''path'', JStr ''/a''), (''title'', JStr ''A'')]"
      and sharedProps = "[(''title'', JStr ''B'')]"
      and k = "''title''" and v = "JStr ''B''"
      and fs = "[(''path'', JStr ''/a''), (''title'', JStr ''A'')]"]
  by (simp add: obj_get_def obj_assign_def)


text \<open>
  A snapshot with the shared prop \<open>title\<close> and one page at \<open>/a\<close>, asked for \<open>/b\<close>:
  no page matches, and the result is the object \<open>{title: "B"}\<close>.
\<close>

theorem getPropsFromCMSDataForPagePath_no_match:
  "List.find (\<lambda>p. prop_get p ''path'' = JStr ''/b'')
     (pages \<lparr> props = [(''title'', JStr ''B'')],
              pages = [JObj [(''path'', JStr ''/a''), (''title'', JStr ''A'')]] \<rparr>) = None
   \<and> getPropsFromCMSDataForPagePath
       \<lparr> props = [(''title'', JStr ''B'')],
         pages = [JObj [(''path'', JStr ''/a''), (''title'', JStr ''A'')]] \<rparr> ''/b''
     = JObj [(''title'', JStr ''B'')]
   \<and> JObj [(''title'', JStr ''B'')] \<noteq> JUndefined"
  by (simp add: getPropsFromCMSDataForPagePath_def lodash_find_def obj_get_def obj_assign_def)


lemma checkPathExists_found:
  "n + k \<le> maxNumOfRetries \<Longrightarrow>
   (\<forall>j<k. fs (now + j * retryDelay) p = None) \<Longrightarrow>
   fs (now + k * retryDelay) p \<noteq> None \<Longrightarrow>
   checkPathExists fs p now n = (now + k * retryDelay, Inr ())"
proof (induction k arbitrary: now n)
  case 0
  then show ?case by (subst checkPathExists.simps) auto
next
  case (Suc k)
  have absent: "fs now p = None" using Suc.prems(2) by force
  have lt: "n < maxNumOfRetries" using Suc.prems(1) by simp
  have "checkPathExists fs p (now + retryDelay) (n + 1)
        = (now + retryDelay + k * retryDelay, Inr ())"
  proof (rule Suc.IH)
    show "n + 1 + k \<le> maxNumOfRetries" using Suc.prems(1) by simp
    show "\<forall>j<k. fs (now + retryDelay + j * retryDelay) p = None"
    proof (intro allI impI)
      fix j assume "j < k"
      then have "fs (now + Suc j * retryDelay) p = None"
        using Suc.prems(2)[rule_format, of "Suc j"] by simp
      then show "fs (now + retryDelay + j * retryDelay) p = None" by (simp add: add.assoc)
    qed
    show "fs (now + retryDelay + k * retryDelay) p \<noteq> None"
      using Suc.prems(3) by (simp add: add.assoc)
  qed
  then show ?case
    by (subst checkPathExists.simps) (simp add: absent lt add.assoc)
qed

lemma checkPathExists_absent:
  "n + k = maxNumOfRetries \<Longrightarrow>
   (\<forall>j\<le>k. fs (now + j * retryDelay) p = None) \<Longrightarrow>
   checkPathExists fs p now n = (now + k * retryDelay, Inl (CacheNotFound p maxNumOfRetries))"
proof (induction k arbitrary: now n)
  case 0
  then show ?case by (subst checkPathExists.simps) auto
next
  case (Suc k)
  have absent: "fs now p = None" using Suc.prems(2) by force
  have lt: "n < maxNumOfRetries" using Suc.prems(1) by simp
  have "checkPathExists fs p (now + retryDelay) (n + 1)
        = (now + retryDelay + k * retryDelay, Inl (CacheNotFound p maxNumOfRetries))"
  proof (rule Suc.IH)
    show "n + 1 + k = maxNumOfRetries" using Suc.prems(1) by simp
    show "\<forall>j\<le>k. fs (now + retryDelay + j * retryDelay) p = None"
    proof (intro allI impI)
      fix j assume "j \<le> k"
      then have "fs (now + Suc j * retryDelay) p = None"
        using Suc.prems(2)[rule_format, of "Suc j"] by simp
      then show "fs (now + retryDelay + j * retryDelay) p = None" by (simp add: add.assoc)
    qed
  qed
  then show ?case
    by (subst checkPathExists.simps) (simp add: absent lt add.assoc)
qed


lemma getData_absent:
  assumes "\<forall>k\<le>maxNumOfRetries. fs (now + k * retryDelay) (DEFAULT_FILE_CACHE_PATH cwd) = None"
  shows "getData fs cwd now
      = (now + maxNumOfRetries * retryDelay,
         Inl (CacheNotFound (DEFAULT_FILE_CACHE_PATH cwd) maxNumOfRetries))"
proof -
  have "checkPathExists fs (DEFAULT_FILE_CACHE_PATH cwd) now 0
      = (now + maxNumOfRetries * retryDelay,
         Inl (CacheNotFound (DEFAULT_FILE_CACHE_PATH cwd) maxNumOfRetries))"
    using assms by (intro checkPathExists_absent) simp_all
  then show ?thesis by (simp add: getData_def)
qed

lemma getData_found:
  assumes "k \<le> maxNumOfRetries"
    and "\<forall>j<k. fs (now + j * retryDelay) (DEFAULT_FILE_CACHE_PATH cwd) = None"
    and "fs (now + k * retryDelay) (DEFAULT_FILE_CACHE_PATH cwd) = Some (Json data)"
  shows "getData fs cwd now = (now + k * retryDelay, Inr data)"
proof -
  have "checkPathExists fs (DEFAULT_FILE_CACHE_PATH cwd) now 0 = (now + k * retryDelay, Inr ())"
    using assms by (intro checkPathExists_found) simp_all
  then show ?thesis using assms(3) by (simp add: getData_def readJson_def)
qed

text \<open>
  Claim C7. \<open>getData\<close> started at a time \<open>now\<close> looks for the cache file at \<open>now\<close> and,
  while it is absent, again every 500 milliseconds, ten times at most. When the file is
  absent at all eleven looks, the call fails 5000 milliseconds after it started, with
  the error that names the path and the ten retries. When the file is there at one of the
  looks (and at none before), the call ends at that look and gives the snapshot that the
  file's JSON parses to.
\<close>

theorem getData_retry:
  "((\<forall>k\<le>maxNumOfRetries. fs (now + k * retryDelay) (DEFAULT_FILE_CACHE_PATH cwd) = None) \<longrightarrow>
      getData fs cwd now
      = (now + maxNumOfRetries * retryDelay,
         Inl (CacheNotFound (DEFAULT_FILE_CACHE_PATH cwd) maxNumOfRetries)))
   \<and> (k \<le> maxNumOfRetries
       \<and> (\<forall>j<k. fs (now + j * retryDelay) (DEFAULT_FILE_CACHE_PATH cwd) = None)
       \<and> fs (now + k * retryDelay) (DEFAULT_FILE_CACHE_PATH cwd) = Some (Json data) \<longrightarrow>
      getData fs cwd now = (now + k * retryDelay, Inr data))
   \<and> retryDelay = 500 \<and> maxNumOfRetries = 10 \<and> maxNumOfRetries * retryDelay = 5000"
  using getData_absent[of fs now cwd] getData_found[of k fs now cwd data]
  by (simp add: retryDelay_def maxNumOfRetries_def)


theorem getData_retry_witness:
  "getData (\<lambda>t. Map.empty) ''/app'' 0
     = (5000, Inl (CacheNotFound ''/app/.sourcebit-nextjs-cache.json'' 10))
   \<and> getData (\<lambda>t. if t < 1200 then Map.empty
                   else [DEFAULT_FILE_CACHE_PATH ''/app'' \<mapsto> Json \<lparr> props = [], pages = [] \<rparr>])
        ''/app'' 0
     = (1500, Inr \<lparr> props = [], pages = [] \<rparr>)"
proof -
  have 1: "getData (\<lambda>t. Map.empty) ''/app'' 0
     = (5000, Inl (CacheNotFound ''/app/.sourcebit-nextjs-cache.json'' 10))"
    using getData_retry [where fs = "\<lambda>t. Map.empty" and cwd = "''/app''" and now = 0 and k = 0
        and data = "\<lparr> props = [], pages = [] \<rparr>"]
    by (simp add: DEFAULT_FILE_CACHE_PATH_def path_join_def)
  have lt: "\<And>j::nat. j < 3 \<Longrightarrow> j * 500 < 1200"
    by simp
  have 2: "getData (\<lambda>t. if t < 1200 then Map.empty
                   else [DEFAULT_FILE_CACHE_PATH ''/app'' \<mapsto> Json \<lparr> props = [], pages = [] \<rparr>])
        ''/app'' 0
     = (1500, Inr \<lparr> props = [], pages = [] \<rparr>)"
    using getData_retry [where fs = "\<lambda>t. if t < 1200 then Map.empty
                   else [DEFAULT_FILE_CACHE_PATH ''/app'' \<mapsto> Json \<lparr> props = [], pages = [] \<rparr>]"
        and cwd = "''/app''" and now = 0 and k = 3 and data = "\<lparr> props = [], pages = [] \<rparr>"] lt
    by simp
  from 1 2 show ?thesis by simp
qed


lemma mapPaths_objects:
  "list_all (\<lambda>p. p \<noteq> JUndefined \<and> p \<noteq> JNull) ps \<Longrightarrow>
   mapPaths ps = Inr (map (\<lambda>page. prop_get page ''path'') ps)"
  by (induction ps) (simp_all add: readProperty_def)

lemma mapPaths_nullish:
  "\<not> list_all (\<lambda>p. p \<noteq> JUndefined \<and> p \<noteq> JNull) ps \<Longrightarrow> mapPaths ps = Inl TypeError"
  by (induction ps) (auto simp: readProperty_def split: sum.splits)

text \<open>
  Claim C8. When \<open>getData\<close> gives a snapshot whose pages are page descriptors (none of
  them is \<open>null\<close> or \<open>undefined\<close>), \<open>getStaticPaths\<close> gives the \<open>path\<close> of each
  of its pages, in the order of the pages: as many paths as pages, the path at an index
  that of the page at the index, equal paths kept. On a page that is \<open>null\<close> or
  \<open>undefined\<close> reading the path is a \<open>TypeError\<close>, and the call fails with it. When
  \<open>getData\<close> fails, so does \<open>getStaticPaths\<close>, with the same error.
\<close>

theorem getStaticPaths_paths:
  "(getData fs cwd now = (t, Inr data)
      \<and> list_all (\<lambda>p. p \<noteq> JUndefined \<and> p \<noteq> JNull) (pages data) \<longrightarrow>
      (\<exists>ps. getStaticPaths fs cwd now = (t, Inr ps)
         \<and> ps = map (\<lambda>page. prop_get page ''path'') (pages data)
         \<and> length ps = length (pages data)
         \<and> (\<forall>i<length (pages data). ps ! i = prop_get (pages data ! i) ''path'')))
   \<and> (getData fs cwd now = (t, Inr data)
      \<and> \<not> list_all (\<lambda>p. p \<noteq> JUndefined \<and> p \<noteq> JNull) (pages data) \<longrightarrow>
      getStaticPaths fs cwd now = (t, Inl TypeError))
   \<and> (getData fs cwd now = (t, Inl e) \<longrightarrow> getStaticPaths fs cwd now = (t, Inl e))"
  by (simp add: getStaticPaths_def mapPaths_objects mapPaths_nullish)

theorem getStaticPaths_paths_witness:
  "getData (\<lambda>t. [DEFAULT_FILE_CACHE_PATH ''/app'' \<mapsto>
       Json \<lparr> props = [], pages = [JObj [(''path'', JStr ''/a'')], JObj [(''path'', JStr ''/a'')],
                                   JObj [(''path'', JStr ''/b'')]] \<rparr>]) ''/app'' 0
     = (0, Inr \<lparr> props = [], pages = [JObj [(''path'', JStr ''/a'')], JObj [(''path'', JStr ''/a'')],
                                   JObj [(''path'', JStr ''/b'')]] \<rparr>)
   \<and> list_all (\<lambda>p. p \<noteq> JUndefined \<and> p \<noteq> JNull)
        [JObj [(''path'', JStr ''/a'')], JObj [(''path'', JStr ''/a'')], JObj [(''path'', JStr ''/b'')]]
   \<and> getStaticPaths (\<lambda>t. [DEFAULT_FILE_CACHE_PATH ''/app'' \<mapsto>
       Json \<lparr> props = [], pages = [JObj [(''path'', JStr ''/a'')], JObj [(''path'', JStr ''/a'')],
                                   JObj [(''path'', JStr ''/b'')]] \<rparr>]) ''/app'' 0
     = (0, Inr [JStr ''/a'', JStr ''/a'', JStr ''/b''])
   \<and> getStaticPaths (\<lambda>t. [DEFAULT_FILE_CACHE_PATH ''/app'' \<mapsto>
       Json \<lparr> props = [], pages = [JObj [(''path'', JStr ''/a'')], JNull] \<rparr>]) ''/app'' 0
     = (0, Inl TypeError)"
proof -
  have g: "getData (\<lambda>t. [DEFAULT_FILE_CACHE_PATH ''/app'' \<mapsto>
       Json \<lparr> props = [], pages = [JObj [(''path'', JStr ''/a'')], JObj [(''path'', JStr ''/a'')],
                                   JObj [(''path'', JStr ''/b'')]] \<rparr>]) ''/app'' 0
     = (0, Inr \<lparr> props = [], pages = [JObj [(''path'', JStr ''/a'')], JObj [(''path'', JStr ''/a'')],
                                   JObj [(''path'', JStr ''/b'')]] \<rparr>)"
    by (simp add: getData_def checkPathExists.simps readJson_def)
  have g2: "getData (\<lambda>t. [DEFAULT_FILE_CACHE_PATH ''/app'' \<mapsto>
       Json \<lparr> props = [], pages = [JObj [(''path'', JStr ''/a'')], JNull] \<rparr>]) ''/app'' 0
     = (0, Inr \<lparr> props = [], pages = [JObj [(''path'', JStr ''/a'')], JNull] \<rparr>)"
    by (simp add: getData_def checkPathExists.simps readJson_def)
  note inst = getStaticPaths_paths [where fs = "\<lambda>t. [DEFAULT_FILE_CACHE_PATH ''/app'' \<mapsto>
       Json \<lparr> props = [], pages = [JObj [(''path'', JStr ''/a'')], JObj [(''path'', JStr ''/a'')],
                                   JObj [(''path'', JStr ''/b'')]] \<rparr>]"
      and cwd = "''/app''" and now = 0 and t = 0
      and data = "\<lparr> props = [], pages = [JObj [(''path'', JStr ''/a'')], JObj [(''path'', JStr ''/a'')],
                                   JObj [(''path'', JStr ''/b'')]] \<rparr>"]
  note inst2 = getStaticPaths_paths [where fs = "\<lambda>t. [DEFAULT_FILE_CACHE_PATH ''/app'' \<mapsto>
       Json \<lparr> props = [], pages = [JObj [(''path'', JStr ''/a'')], JNull] \<rparr>]"
      and cwd = "''/app''" and now = 0 and t = 0
      and data = "\<lparr> props = [], pages = [JObj [(''path'', JStr ''/a'')], JNull] \<rparr>"]
  have ok: "list_all (\<lambda>p. p \<noteq> JUndefined \<and> p \<noteq> JNull)
        [JObj [(''path'', JStr ''/a'')], JObj [(''path'', JStr ''/a'')], JObj [(''path'', JStr ''/b'')]]"
    by simp
  have p1: "getStaticPaths (\<lambda>t. [DEFAULT_FILE_CACHE_PATH ''/app'' \<mapsto>
       Json \<lparr> props = [], pages = [JObj [(''path'', JStr ''/a'')], JObj [(''path'', JStr ''/a'')],
                                   JObj [(''path'', JStr ''/b'')]] \<rparr>]) ''/app'' 0
     = (0, Inr [JStr ''/a'', JStr ''/a'', JStr ''/b''])"
    using inst[THEN conjunct1, rule_format] g ok by (simp add: obj_get_def)
  have p2: "getStaticPaths (\<lambda>t. [DEFAULT_FILE_CACHE_PATH ''/app'' \<mapsto>
       Json \<lparr> props = [], pages = [JObj [(''path'', JStr ''/a'')], JNull] \<rparr>]) ''/app'' 0
     = (0, Inl TypeError)"
    using inst2[THEN conjunct2, THEN conjunct1, rule_format] g2 by simp
  from g ok p1 p2 show ?thesis by blast
qed







section \<open>Properties of the live update channel\<close>

lemma ws_send_fields:
  "listeners (ws_send ws msg w) = listeners w"
  "connected (ws_send ws msg w) = connected w"
  "sendCalls (ws_send ws msg w) = sendCalls w @ [(ws, msg)]"
  "delivered (ws_send ws msg w)
   = delivered w @ (if ws \<in> set (connected w) then [(ws, msg)] else [])"
  by (simp_all add: ws_send_def Let_def)

lemma foldl_ws_send:
  "listeners (foldl (\<lambda>w ws. ws_send ws msg w) w xs) = listeners w
   \<and> connected (foldl (\<lambda>w ws. ws_send ws msg w) w xs) = connected w
   \<and> sendCalls (foldl (\<lambda>w ws. ws_send ws msg w) w xs) = sendCalls w @ map (\<lambda>ws. (ws, msg)) xs
   \<and> delivered (foldl (\<lambda>w ws. ws_send ws msg w) w xs)
     = delivered w @ map (\<lambda>ws. (ws, msg)) (filter (\<lambda>ws. ws \<in> set (connected w)) xs)"
  by (induction xs arbitrary: w) (simp_all add: ws_send_fields)

lemma emit_fields:
  "listeners (emit w) = listeners w"
  "connected (emit w) = connected w"
  "sendCalls (emit w) = sendCalls w @ map (\<lambda>ws. (ws, LIVE_UPDATE_EVENT_NAME)) (listeners w)"
  "delivered (emit w)
   = delivered w @ map (\<lambda>ws. (ws, LIVE_UPDATE_EVENT_NAME))
       (filter (\<lambda>ws. ws \<in> set (connected w)) (listeners w))"
  using foldl_ws_send[of LIVE_UPDATE_EVENT_NAME w "listeners w"] by (simp_all add: emit_def)

lemma listeners_step: "listeners (step w e) = listeners w @ accepted [e]"
  by (cases e) (simp_all add: onConnection_def onMessage_def onClose_def emit_fields ws_send_fields)

lemma accepted_append: "accepted (es @ fs) = accepted es @ accepted fs"
  by (induction es rule: accepted.induct) simp_all

lemma listeners_foldl_step: "listeners (foldl step w es) = listeners w @ accepted es"
proof (induction es arbitrary: w)
  case Nil
  show ?case by simp
next
  case (Cons e es)
  have "accepted (e # es) = accepted [e] @ accepted es"
    using accepted_append[of "[e]" es] by simp
  then show ?case by (simp add: Cons listeners_step)
qed

lemma connected_step: "set (connected w) \<subseteq> set (listeners w) \<Longrightarrow>
   set (connected (step w e)) \<subseteq> set (listeners (step w e))"
  by (cases e) (auto simp: onConnection_def onMessage_def onClose_def emit_fields ws_send_fields)

lemma connected_foldl_step: "set (connected w) \<subseteq> set (listeners w) \<Longrightarrow>
   set (connected (foldl step w es)) \<subseteq> set (listeners (foldl step w es))"
  by (induction es arbitrary: w) (simp_all add: connected_step)

lemma count_list_filter_distinct:
  "distinct xs \<Longrightarrow> x \<in> set xs \<Longrightarrow> P x \<Longrightarrow> count_list (filter P xs) x = 1"
  by (induction xs) auto


text \<open>
  Claim C9, as amended. Closing a connection leaves the listeners as they are: the
  listener added when a socket connects is never removed, and after any run of events
  the listeners are all the sockets ever accepted, in order. A broadcast calls
  \<open>send\<close> with the event's name once for each listener, closed sockets included, and
  what it delivers goes to the listeners that are still connected; each connected socket
  is among them exactly once, so it receives the name once for each broadcast. (The claim
  has the closing of a connection drop its subscription; nothing in the code removes a
  listener.)
\<close>

theorem watcher_subscriptions:
  "listeners (onClose ws w) = listeners w
   \<and> listeners (run events) = accepted events
   \<and> sendCalls (emit w) = sendCalls w @ map (\<lambda>ws. (ws, LIVE_UPDATE_EVENT_NAME)) (listeners w)
   \<and> delivered (emit w)
       = delivered w @ map (\<lambda>ws. (ws, LIVE_UPDATE_EVENT_NAME))
           (filter (\<lambda>ws. ws \<in> set (connected w)) (listeners w))
   \<and> (distinct (accepted events) \<and> ws \<in> set (connected (run events)) \<longrightarrow>
        count_list (filter (\<lambda>ws. ws \<in> set (connected (run events))) (listeners (run events))) ws = 1)"
proof -
  have 1: "listeners (onClose ws w) = listeners w" by (simp add: onClose_def)
  have 2: "listeners (run events) = accepted events"
    by (simp add: run_def listeners_foldl_step noConnections_def)
  have sub: "set (connected (run events)) \<subseteq> set (listeners (run events))"
    unfolding run_def by (rule connected_foldl_step) (simp add: noConnections_def)
  have 5: "distinct (accepted events) \<and> ws \<in> set (connected (run events)) \<longrightarrow>
        count_list (filter (\<lambda>ws. ws \<in> set (connected (run events))) (listeners (run events))) ws = 1"
  proof
    assume a: "distinct (accepted events) \<and> ws \<in> set (connected (run events))"
    then have "distinct (listeners (run events))" using 2 by simp
    moreover have "ws \<in> set (listeners (run events))" using a sub by blast
    ultimately show "count_list (filter (\<lambda>ws. ws \<in> set (connected (run events))) (listeners (run events))) ws = 1"
      using a by (intro count_list_filter_distinct) simp_all
  qed
  from 1 2 5 show ?thesis by (simp add: emit_fields)
qed


theorem watcher_subscriptions_witness:
  "distinct (accepted [Connection 1, Connection 2, Close 1])
   \<and> 2 \<in> set (connected (run [Connection 1, Connection 2, Close 1]))
   \<and> delivered (run [Connection 1, Connection 2, Close 1, Emit])
      = [(1, ''hello''), (2, ''hello''), (2, ''props_changed'')]
   \<and> count_list (filter (\<lambda>ws. ws \<in> set (connected (run [Connection 1, Connection 2, Close 1])))
        (listeners (run [Connection 1, Connection 2, Close 1]))) 2 = 1"
  using watcher_subscriptions [where events = "[Connection 1, Connection 2, Close 1]" and ws = 2]
  by (simp add: run_def noConnections_def onConnection_def onClose_def emit_def ws_send_def
      LIVE_UPDATE_EVENT_NAME_def)


text \<open>
  A socket connects and closes, then the event is emitted: the socket is still a
  listener, it is not connected, and the emit calls \<open>send\<close> on it.
\<close>

theorem close_keeps_listener:
  "listeners (run [Connection 1, Close 1]) = [1]
   \<and> connected (run [Connection 1, Close 1]) = []
   \<and> sendCalls (run [Connection 1, Close 1, Emit]) = [(1, ''hello''), (1, ''props_changed'')]
   \<and> delivered (run [Connection 1, Close 1, Emit]) = [(1, ''hello'')]"
  by (simp add: run_def noConnections_def onConnection_def onClose_def emit_def ws_send_def
      LIVE_UPDATE_EVENT_NAME_def)

end
